theory Spec2Isabelle
  imports Complex_Main "HOL-Library.List_Lexorder" "HOL-Library.Product_Lexorder"
begin

section \<open>Python strings and slices\<close>

text \<open>
  A Python \<open>str\<close> is a sequence of Unicode code points; it is modelled as a list of
  natural numbers, one per code point. Comparison of such lists (\<open>List_Lexorder\<close>) is
  Python's string comparison: lexicographic by code point, a proper prefix first.
\<close>

type_synonym pystr = "nat list"

definition ustr :: "string \<Rightarrow> pystr" where
  "ustr s = map of_char s"

text \<open>
  The characters that \<open>str.strip()\<close> removes and that the pattern \<open>\s\<close> matches on a
  \<open>str\<close>: both ask CPython's \<open>Py_UNICODE_ISSPACE\<close>, whose table is
  U+0009..U+000D, U+001C..U+001F, U+0020, U+0085, U+00A0, U+1680, U+2000..U+200A,
  U+2028, U+2029, U+202F, U+205F and U+3000.
\<close>

definition isspace :: "nat \<Rightarrow> bool" where
  "isspace c \<longleftrightarrow>
     (9 \<le> c \<and> c \<le> 13) \<or> (28 \<le> c \<and> c \<le> 31) \<or> c = 32 \<or> c = 133 \<or> c = 160 \<or>
     c = 5760 \<or> (8192 \<le> c \<and> c \<le> 8202) \<or> c = 8232 \<or> c = 8233 \<or> c = 8239 \<or>
     c = 8287 \<or> c = 12288"

definition strip :: "pystr \<Rightarrow> pystr" where
  "strip s = rev (dropWhile isspace (rev (dropWhile isspace s)))"

text \<open>The two negation markers, \<open>U+00AC\<close> (the not sign) and the tilde.\<close>

definition is_neg_marker :: "nat \<Rightarrow> bool" where
  "is_neg_marker c \<longleftrightarrow> c = 172 \<or> c = 126"

definition starts_negated :: "pystr \<Rightarrow> bool" where
  "starts_negated core = (case core of [] \<Rightarrow> False | c # _ \<Rightarrow> is_neg_marker c)"

text \<open>
  Python's \<open>xs[lo:hi]\<close>: a negative bound counts from the end, every bound is clamped
  into \<open>0..len(xs)\<close>, and the slice is empty when the start is not before the stop.
\<close>

definition slice_bound :: "int \<Rightarrow> nat \<Rightarrow> nat" where
  "slice_bound i n = (if i < 0 then nat (max 0 (int n + i)) else min (nat i) n)"

definition py_slice :: "int \<Rightarrow> int \<Rightarrow> 'a list \<Rightarrow> 'a list" where
  "py_slice lo hi xs =
     (let a = slice_bound lo (length xs); b = slice_bound hi (length xs)
      in take (b - a) (drop a xs))"

text \<open>\<open>s.split(sep)\<close> for a one-character separator: the pieces between the separators.\<close>

fun split_on :: "nat \<Rightarrow> pystr \<Rightarrow> pystr list" where
  "split_on sep [] = [[]]"
| "split_on sep (c # cs) =
     (if c = sep then [] # split_on sep cs
      else (case split_on sep cs of
              [] \<Rightarrow> [[c]]
            | p # ps \<Rightarrow> (c # p) # ps))"

section \<open>Literal helpers\<close>

text \<open>
  \<open>parse_literal\<close>: \<open>core.split("(", 1)[0]\<close> is the part of \<open>core\<close> before its first
  \<open>(\<close> (code point 40), all of \<open>core\<close> when there is none; \<open>core[1:]\<close> drops the marker;
  44 is the comma.
\<close>

definition parse_literal :: "pystr \<Rightarrow> int \<times> pystr \<times> pystr list" where
  "parse_literal literal =
     (let core0 = strip literal;
          neg = starts_negated core0;
          sign = (if neg then -1 else 1);
          core = (if neg then strip (drop 1 core0) else core0);
          pred = takeWhile (\<lambda>c. c \<noteq> 40) core;
          inside = strip (py_slice (int (length pred) + 1) (-1) core);
          args = (if inside = [] then [] else map strip (split_on 44 inside))
      in (sign, pred, args))"

text \<open>
  The type code of one argument. \<open>isupper\<close> stands for \<open>str.isupper\<close> on a one-character
  string, that is the Unicode table of uppercase code points, which is not part of the
  program: every function that encodes literals takes it as its first parameter.
\<close>

definition arg_type :: "(nat \<Rightarrow> bool) \<Rightarrow> pystr \<Rightarrow> int" where
  "arg_type isupper arg =
     (if 40 \<in> set arg \<and> arg \<noteq> [] \<and> last arg = 41 then 2
      else if arg \<noteq> [] \<and> isupper (hd arg) then 0
      else 1)"

text \<open>
  \<open>embed_literal\<close>. The features are small integers stored as floats; they are kept as
  integers here. \<open>args[:max_args]\<close> is a slice, \<open>[-1] * k\<close> is empty for \<open>k \<le> 0\<close>.
\<close>

definition embed_literal :: "(nat \<Rightarrow> bool) \<Rightarrow> pystr \<Rightarrow> (pystr \<rightharpoonup> int) \<Rightarrow> int \<Rightarrow> int list" where
  "embed_literal isupper literal predicate_to_idx max_args =
     (case parse_literal literal of (sign, pred, args) \<Rightarrow>
        let feat = [if sign > 0 then 0 else 1,
                    (case predicate_to_idx pred of None \<Rightarrow> 0 | Some i \<Rightarrow> i)];
            arg_types = map (arg_type isupper) (py_slice 0 max_args args);
            arg_types = arg_types @ replicate (nat (max_args - int (length arg_types))) (-1)
        in feat @ arg_types)"

text \<open>The ASCII part of the uppercase table, for evaluating on ASCII literals.\<close>

definition ascii_isupper :: "nat \<Rightarrow> bool" where
  "ascii_isupper c \<longleftrightarrow> 65 \<le> c \<and> c \<le> 90"

section \<open>Examples and best-pair resolution\<close>

text \<open>
  A resolvable pair holds four JSON values, each an integer or \<open>null\<close> (\<open>None\<close>).
  An example holds its clauses (triples of identifier, type and literals), its pairs, and
  the optional \<open>best_pair\<close> and \<open>best_pair_index\<close>; \<open>None\<close> stands for a key that is
  missing or \<open>null\<close>, which the code treats alike.
\<close>

record rpair =
  clauseA_index :: "int option"
  literalA_index :: "int option"
  clauseB_index :: "int option"
  literalB_index :: "int option"

type_synonym clause = "pystr \<times> pystr \<times> pystr list"

record example =
  problem_id :: "pystr option"
  clauses :: "clause list"
  resolvable_pairs :: "rpair list"
  best_pair :: "rpair option"
  best_pair_index :: "int option"

definition extract_best_pair :: "example \<Rightarrow> rpair option" where
  "extract_best_pair ex =
     (case best_pair ex of
        Some bp \<Rightarrow> Some bp
      | None \<Rightarrow>
          (case best_pair_index ex of
             None \<Rightarrow> None
           | Some idx \<Rightarrow>
               (let rp = resolvable_pairs ex
                in if 0 \<le> idx \<and> idx < int (length rp) then Some (rp ! nat idx) else None)))"

section \<open>The graph builder\<close>

datatype py_error = RuntimeError | IndexError

text \<open>
  The graph that \<open>Data(x=x, edge_index=edge_index, y=y)\<close> holds: the node features, the
  edges as (source, destination) columns of the \<open>2 \<times> E\<close> tensor, and the labels. The label
  of the edge in column \<open>k\<close> is \<open>y[k]\<close>.
\<close>

record data =
  data_x :: "int list list"
  data_edge_index :: "(nat \<times> nat) list"
  data_y :: "int list"

type_synonym node_map = "int \<times> int \<rightharpoonup> nat"
type_synonym node_state = "node_map \<times> int list list \<times> nat"

text \<open>The two nested \<open>enumerate\<close> loops that number the literals.\<close>

fun literal_loop ::
  "(nat \<Rightarrow> bool) \<Rightarrow> (pystr \<rightharpoonup> int) \<Rightarrow> int \<Rightarrow> nat \<Rightarrow> nat \<Rightarrow> pystr list \<Rightarrow> node_state \<Rightarrow> node_state"
where
  "literal_loop isupper predicate_to_idx max_args ci li [] st = st"
| "literal_loop isupper predicate_to_idx max_args ci li (lit # lits) (node_map, node_features, g_idx) =
     literal_loop isupper predicate_to_idx max_args ci (li + 1) lits
       (node_map((int ci, int li) \<mapsto> g_idx),
        node_features @ [embed_literal isupper lit predicate_to_idx max_args],
        g_idx + 1)"

fun clause_loop ::
  "(nat \<Rightarrow> bool) \<Rightarrow> (pystr \<rightharpoonup> int) \<Rightarrow> int \<Rightarrow> nat \<Rightarrow> clause list \<Rightarrow> node_state \<Rightarrow> node_state"
where
  "clause_loop isupper predicate_to_idx max_args ci [] st = st"
| "clause_loop isupper predicate_to_idx max_args ci (clause # cs) st =
     clause_loop isupper predicate_to_idx max_args (ci + 1) cs
       (literal_loop isupper predicate_to_idx max_args ci 0 (snd (snd clause)) st)"

text \<open>
  \<open>torch.stack\<close> raises a \<open>RuntimeError\<close> on an empty list of tensors and on tensors of
  different sizes.
\<close>

definition torch_stack :: "int list list \<Rightarrow> py_error + int list list" where
  "torch_stack ts =
     (case ts of
        [] \<Rightarrow> Inl RuntimeError
      | t # _ \<Rightarrow> if list_all (\<lambda>u. length u = length t) ts then Inr ts else Inl RuntimeError)"

text \<open>
  \<open>(i, a) in node_map\<close> and \<open>node_map[(i, a)]\<close>: a key with a \<open>null\<close> component is never
  in the dictionary, whose keys are pairs of integers.
\<close>

definition lookup_node :: "node_map \<Rightarrow> int option \<Rightarrow> int option \<Rightarrow> nat option" where
  "lookup_node node_map i a =
     (case i of
        None \<Rightarrow> None
      | Some i' \<Rightarrow> (case a of None \<Rightarrow> None | Some a' \<Rightarrow> node_map (i', a')))"

definition is_best :: "rpair option \<Rightarrow> rpair \<Rightarrow> bool" where
  "is_best best pair =
     (case best of
        None \<Rightarrow> False
      | Some bp \<Rightarrow>
          literalA_index bp \<noteq> None \<and> literalB_index bp \<noteq> None \<and>
          clauseA_index pair = clauseA_index bp \<and> literalA_index pair = literalA_index bp \<and>
          clauseB_index pair = clauseB_index bp \<and> literalB_index pair = literalB_index bp)"

type_synonym edge_state = "nat list \<times> nat list \<times> int list"

text \<open>One turn of the loop over \<open>resolvable_pairs\<close>; both \<open>continue\<close>s leave the state alone.\<close>

definition add_pair :: "node_map \<Rightarrow> rpair option \<Rightarrow> rpair \<Rightarrow> edge_state \<Rightarrow> edge_state" where
  "add_pair node_map best pair st =
     (case st of (edge_src, edge_dst, labels) \<Rightarrow>
        if literalA_index pair = None \<or> literalB_index pair = None then st
        else
          (case lookup_node node_map (clauseA_index pair) (literalA_index pair) of
             None \<Rightarrow> st
           | Some src \<Rightarrow>
               (case lookup_node node_map (clauseB_index pair) (literalB_index pair) of
                  None \<Rightarrow> st
                | Some dst \<Rightarrow>
                    (edge_src @ [src], edge_dst @ [dst],
                     labels @ [if is_best best pair then 1 else 0]))))"

definition pair_loop :: "node_map \<Rightarrow> rpair option \<Rightarrow> rpair list \<Rightarrow> edge_state" where
  "pair_loop node_map best pairs = fold (add_pair node_map best) pairs ([], [], [])"

text \<open>
  \<open>torch_geometric.utils.to_undirected\<close>, a library function: it appends the reversed
  edges to the given ones and coalesces the result, that is sorts the columns by
  (row, column) and removes the duplicates.
\<close>

definition to_undirected :: "(nat \<times> nat) list \<Rightarrow> (nat \<times> nat) list" where
  "to_undirected edge_index = sort (remdups (edge_index @ map prod.swap edge_index))"

definition build_graph_from_example ::
  "(nat \<Rightarrow> bool) \<Rightarrow> example \<Rightarrow> (pystr \<rightharpoonup> int) \<Rightarrow> int \<Rightarrow> py_error + data option"
where
  "build_graph_from_example isupper ex predicate_to_idx max_args =
     (let best = extract_best_pair ex
      in case clause_loop isupper predicate_to_idx max_args 0 (clauses ex) (Map.empty, [], 0) of
           (node_map, node_features, g_idx) \<Rightarrow>
             (case torch_stack node_features of
                Inl e \<Rightarrow> Inl e
              | Inr x \<Rightarrow>
                  (case pair_loop node_map best (resolvable_pairs ex) of
                     (edge_src, edge_dst, labels) \<Rightarrow>
                       if length edge_src = 0 then Inr None
                       else
                         (let edge_index = zip edge_src edge_dst;
                              num_fwd = length edge_index;
                              edge_index = to_undirected edge_index;
                              added = int (length edge_index) - int num_fwd;
                              labels = labels @ py_slice 0 added labels
                          in Inr (Some \<lparr>data_x = x, data_edge_index = edge_index,
                                        data_y = labels\<rparr>)))))"

section \<open>The dataset\<close>

text \<open>
  The pattern \<open>\s*[~\<not>]?\s*([A-Za-z0-9_]+)\(\<close> of \<open>re.match\<close>, anchored at the start. Its
  character classes are pairwise disjoint, so the greedy match is the only one: spaces, at
  most one marker, spaces, the longest run of identifier characters, which must not be
  empty and must be followed by \<open>(\<close>.
\<close>

definition is_ident_char :: "nat \<Rightarrow> bool" where
  "is_ident_char c \<longleftrightarrow>
     (65 \<le> c \<and> c \<le> 90) \<or> (97 \<le> c \<and> c \<le> 122) \<or> (48 \<le> c \<and> c \<le> 57) \<or> c = 95"

definition match_predicate :: "pystr \<Rightarrow> pystr option" where
  "match_predicate lit =
     (let s1 = dropWhile isspace lit;
          s2 = (if starts_negated s1 then drop 1 s1 else s1);
          s3 = dropWhile isspace s2;
          name = takeWhile is_ident_char s3;
          rest = dropWhile is_ident_char s3
      in if name \<noteq> [] \<and> take 1 rest = [40] then Some name else None)"

definition collect_literal :: "pystr \<Rightarrow> pystr set \<Rightarrow> pystr set" where
  "collect_literal lit seen = (case match_predicate lit of None \<Rightarrow> seen | Some m \<Rightarrow> insert m seen)"

definition collect_example :: "example \<Rightarrow> pystr set \<Rightarrow> pystr set" where
  "collect_example ex seen = fold (\<lambda>clause. fold collect_literal (snd (snd clause))) (clauses ex) seen"

definition collect_predicates :: "example list \<Rightarrow> pystr set" where
  "collect_predicates exs = fold collect_example exs {}"

text \<open>\<open>{p: i + 1 for i, p in enumerate(pred_list)}\<close>: a later entry replaces an earlier one.\<close>

definition make_vocab :: "pystr list \<Rightarrow> (pystr \<rightharpoonup> int)" where
  "make_vocab pred_list = fold (\<lambda>(i, p) m. m(p \<mapsto> int i + 1)) (enumerate 0 pred_list) Map.empty"

record dataset =
  ds_max_args :: int
  cache_enabled :: bool
  cache :: "int \<rightharpoonup> data option"
  examples :: "example list"
  predicate_to_idx :: "pystr \<rightharpoonup> int"

text \<open>
  \<open>ClauseResolutionDataset.__init__\<close>, from the loaded examples on (reading the files is
  outside the model). The assignments to \<open>self\<close> are kept in the order of the source.
  \<open>if predicate_list:\<close> is false for \<open>None\<close> and for the empty list.
\<close>

definition dataset_init :: "example list \<Rightarrow> pystr list option \<Rightarrow> int \<Rightarrow> bool \<Rightarrow> dataset" where
  "dataset_init loaded predicate_list max_args use_cache =
     (let self = \<lparr>ds_max_args = max_args, cache_enabled = use_cache, cache = Map.empty,
                  examples = [], predicate_to_idx = Map.empty\<rparr>;
          filtered = filter (\<lambda>ex. extract_best_pair ex \<noteq> None) loaded;
          self = self\<lparr>examples := filtered\<rparr>;
          pred_list =
            (case predicate_list of
               None \<Rightarrow> sorted_list_of_set (collect_predicates loaded)
             | Some pl \<Rightarrow> if pl \<noteq> [] then pl else sorted_list_of_set (collect_predicates loaded));
          self = self\<lparr>predicate_to_idx := make_vocab pred_list\<rparr>;
          self = self\<lparr>examples := loaded\<rparr>
      in self)"

text \<open>\<open>xs[i]\<close>: a negative index counts from the end, an index out of range raises.\<close>

definition py_index :: "'a list \<Rightarrow> int \<Rightarrow> py_error + 'a" where
  "py_index xs i =
     (if 0 \<le> i \<and> i < int (length xs) then Inr (xs ! nat i)
      else if i < 0 \<and> - int (length xs) \<le> i then Inr (xs ! nat (int (length xs) + i))
      else Inl IndexError)"

text \<open>\<open>get\<close>, with the cache threaded through; an exception leaves the cache as it was.\<close>

definition dataset_get :: "(nat \<Rightarrow> bool) \<Rightarrow> dataset \<Rightarrow> int \<Rightarrow> (py_error + data option) \<times> dataset" where
  "dataset_get isupper self idx =
     (if cache_enabled self then
        (case cache self idx of
           Some g \<Rightarrow> (Inr g, self)
         | None \<Rightarrow>
             (case py_index (examples self) idx of
                Inl e \<Rightarrow> (Inl e, self)
              | Inr ex \<Rightarrow>
                  (case build_graph_from_example isupper ex (predicate_to_idx self) (ds_max_args self) of
                     Inl e \<Rightarrow> (Inl e, self)
                   | Inr g \<Rightarrow> (Inr g, self\<lparr>cache := (cache self)(idx \<mapsto> g)\<rparr>))))
      else
        (case py_index (examples self) idx of
           Inl e \<Rightarrow> (Inl e, self)
         | Inr ex \<Rightarrow>
             (build_graph_from_example isupper ex (predicate_to_idx self) (ds_max_args self), self)))"

section \<open>Evaluation\<close>

record batch =
  batch_x :: "int list list"
  batch_edge_index :: "(nat \<times> nat) list"
  batch_y :: "int list"

text \<open>
  \<open>(pred == batch.y).sum().item()\<close> on two one-dimensional tensors: the comparison is
  elementwise, a tensor of one element is broadcast against the other, and any other
  difference of sizes raises a \<open>RuntimeError\<close>.
\<close>

definition count_equal :: "int list \<Rightarrow> int list \<Rightarrow> py_error + nat" where
  "count_equal pred ys =
     (if length pred = length ys then Inr (length (filter (\<lambda>(p, t). p = t) (zip pred ys)))
      else if length pred = 1 then Inr (length (filter (\<lambda>t. hd pred = t) ys))
      else if length ys = 1 then Inr (length (filter (\<lambda>p. p = hd ys) pred))
      else Inl RuntimeError)"

text \<open>
  The loop of \<open>evaluate\<close>. Its parameter \<open>model\<close> stands for
  \<open>model(batch.x, batch.edge_index).argmax(dim=1)\<close>, the predicted class of every edge;
  the loader is the list of the batches it yields.
\<close>

fun evaluate_loop ::
  "(int list list \<Rightarrow> (nat \<times> nat) list \<Rightarrow> int list) \<Rightarrow> batch list \<Rightarrow> nat \<times> nat \<Rightarrow> py_error + nat \<times> nat"
where
  "evaluate_loop model [] (correct, tot) = Inr (correct, tot)"
| "evaluate_loop model (b # bs) (correct, tot) =
     (if length (batch_y b) = 0 then evaluate_loop model bs (correct, tot)
      else
        (case count_equal (model (batch_x b) (batch_edge_index b)) (batch_y b) of
           Inl e \<Rightarrow> Inl e
         | Inr c \<Rightarrow> evaluate_loop model bs (correct + c, tot + length (batch_y b))))"

text \<open>
  \<open>correct / total\<close> divides two integers (\<open>tot\<close> is the source's \<open>total\<close>); the quotient is kept exact, as a rational
  (the float Python returns is this number rounded, and rounding keeps it between the
  floats 0 and 1).
\<close>

definition evaluate ::
  "(int list list \<Rightarrow> (nat \<times> nat) list \<Rightarrow> int list) \<Rightarrow> batch list \<Rightarrow> py_error + rat"
where
  "evaluate model loader =
     (case evaluate_loop model loader (0, 0) of
        Inl e \<Rightarrow> Inl e
      | Inr (correct, tot) \<Rightarrow> Inr (if tot \<noteq> 0 then of_nat correct / of_nat tot else 0))"

section \<open>Invariant of the node numbering\<close>

text \<open>A proof invariant of the two node loops: every ordinal handed out so far is below
  the counter \<open>g_idx\<close>, and no two keys of \<open>node_map\<close> share one.\<close>

definition numbered :: "node_state \<Rightarrow> bool" where
  "numbered st \<longleftrightarrow>
     (\<forall>k v. fst st k = Some v \<longrightarrow> v < snd (snd st)) \<and>
     (\<forall>k k' v. fst st k = Some v \<longrightarrow> fst st k' = Some v \<longrightarrow> k = k')"

section \<open>Sample inputs\<close>

text \<open>Concrete literals, pairs and examples on which the theorems below are evaluated.\<close>

definition literal_pair :: "int \<Rightarrow> int \<Rightarrow> int \<Rightarrow> int \<Rightarrow> rpair" where
  "literal_pair i a j b =
     \<lparr>clauseA_index = Some i, literalA_index = Some a,
      clauseB_index = Some j, literalB_index = Some b\<rparr>"

definition unit_clause :: "string \<Rightarrow> pystr \<Rightarrow> clause" where
  "unit_clause cid lit = (ustr cid, ustr ''axiom'', [lit])"

definition four_clauses :: "clause list" where
  "four_clauses =
     [unit_clause ''c0'' (ustr ''P(x)''), unit_clause ''c1'' (172 # ustr ''P(a)''),
      unit_clause ''c2'' (ustr ''Q(x)''), unit_clause ''c3'' (ustr ''~Q(a)'')]"

definition sample_example :: "rpair list \<Rightarrow> rpair option \<Rightarrow> int option \<Rightarrow> example" where
  "sample_example pairs best idx =
     \<lparr>problem_id = Some (ustr ''p1''), clauses = four_clauses, resolvable_pairs = pairs,
      best_pair = best, best_pair_index = idx\<rparr>"

section \<open>Properties of the literal helpers\<close>

text \<open>The functions unfolded one assignment at a time, and evaluated on sample literals.\<close>

text \<open>The functions unfolded one assignment at a time, and evaluated on sample literals.\<close>

lemma parse_literal_steps:
  assumes "strip literal = core0"
    and "starts_negated core0 = neg"
    and "(if neg then strip (drop 1 core0) else core0) = core"
    and "takeWhile (\<lambda>c. c \<noteq> 40) core = pred"
    and "strip (py_slice (int (length pred) + 1) (-1) core) = inside"
  shows "parse_literal literal =
           (if neg then -1 else 1, pred, if inside = [] then [] else map strip (split_on 44 inside))"
  using assms by (simp add: parse_literal_def Let_def)

lemma embed_literal_steps:
  assumes "parse_literal literal = (sign, pred, args)"
    and "py_slice 0 max_args args = used"
  shows "embed_literal isupper literal vocab max_args =
           [if sign > 0 then 0 else 1, case vocab pred of None \<Rightarrow> 0 | Some i \<Rightarrow> i]
           @ map (arg_type isupper) used
           @ replicate (nat (max_args - int (length used))) (-1)"
  using assms by (simp add: embed_literal_def Let_def)

lemma sample_strings:
  "ustr '' ~ rain '' = [32, 126, 32, 114, 97, 105, 110, 32]"
  "ustr ''rain'' = [114, 97, 105, 110]"
  "ustr ''~P(x, f(a), Y)'' = [126, 80, 40, 120, 44, 32, 102, 40, 97, 41, 44, 32, 89, 41]"
  "ustr ''P'' = [80]"
  "ustr ''Q'' = [81]"
  "ustr ''R'' = [82]"
  "ustr ''P(x)'' = [80, 40, 120, 41]"
  "ustr ''P(a)'' = [80, 40, 97, 41]"
  "ustr ''Q(x)'' = [81, 40, 120, 41]"
  "ustr ''~Q(a)'' = [126, 81, 40, 97, 41]"
  by (simp_all add: ustr_def)

lemma strip_samples:
  "strip [32, 126, 32, 114, 97, 105, 110, 32] = [126, 32, 114, 97, 105, 110]"
  "strip [32, 114, 97, 105, 110] = [114, 97, 105, 110]"
  "strip [114, 97, 105, 110] = [114, 97, 105, 110]"
  "strip [126, 80, 40, 120, 44, 32, 102, 40, 97, 41, 44, 32, 89, 41]
     = [126, 80, 40, 120, 44, 32, 102, 40, 97, 41, 44, 32, 89, 41]"
  "strip [80, 40, 120, 44, 32, 102, 40, 97, 41, 44, 32, 89, 41]
     = [80, 40, 120, 44, 32, 102, 40, 97, 41, 44, 32, 89, 41]"
  "strip [120, 44, 32, 102, 40, 97, 41, 44, 32, 89] = [120, 44, 32, 102, 40, 97, 41, 44, 32, 89]"
  "strip [120] = [120]"
  "strip [32, 102, 40, 97, 41] = [102, 40, 97, 41]"
  "strip [32, 89] = [89]"
  by (simp_all add: strip_def isspace_def)

lemma parse_sample_literal:
  "parse_literal (ustr ''~P(x, f(a), Y)'') = (-1, [80], [[120], [102, 40, 97, 41], [89]])"
proof -
  have "parse_literal [126, 80, 40, 120, 44, 32, 102, 40, 97, 41, 44, 32, 89, 41] =
      (if True then -1 else 1, [80],
       if [120, 44, 32, 102, 40, 97, 41, 44, 32, 89] = ([]::pystr) then []
       else map strip (split_on 44 [120, 44, 32, 102, 40, 97, 41, 44, 32, 89]))"
  proof (rule parse_literal_steps)
    show "strip [126, 80, 40, 120, 44, 32, 102, 40, 97, 41, 44, 32, 89, 41]
        = [126, 80, 40, 120, 44, 32, 102, 40, 97, 41, 44, 32, 89, 41]"
      by (rule strip_samples)
    show "starts_negated [126, 80, 40, 120, 44, 32, 102, 40, 97, 41, 44, 32, 89, 41] = True"
      by (simp add: starts_negated_def is_neg_marker_def)
    show "(if True then strip (drop 1 [126, 80, 40, 120, 44, 32, 102, 40, 97, 41, 44, 32, 89, 41])
           else [126, 80, 40, 120, 44, 32, 102, 40, 97, 41, 44, 32, 89, 41])
          = [80, 40, 120, 44, 32, 102, 40, 97, 41, 44, 32, 89, 41]"
      by (simp add: strip_samples)
    show "takeWhile (\<lambda>c. c \<noteq> 40) [80, 40, 120, 44, 32, 102, 40, 97, 41, 44, 32, 89, 41] = [80::nat]"
      by simp
    show "strip (py_slice (int (length [80::nat]) + 1) (-1)
            [80, 40, 120, 44, 32, 102, 40, 97, 41, 44, 32, 89, 41])
          = [120, 44, 32, 102, 40, 97, 41, 44, 32, 89]"
      by (simp add: py_slice_def slice_bound_def strip_samples)
  qed
  then show ?thesis
    by (simp add: sample_strings strip_samples)
qed

lemma embed_sample_literal:
  "embed_literal ascii_isupper (ustr ''~P(x, f(a), Y)'') Map.empty 5 = [1, 0, 1, 2, 0, -1, -1]"
proof -
  have u: "py_slice 0 5 [[120], [102, 40, 97, 41], [89::nat]] = [[120], [102, 40, 97, 41], [89]]"
    by (simp add: py_slice_def slice_bound_def)
  have r: "replicate (nat (5 - int (length [[120], [102, 40, 97, 41], [89::nat]]))) (-1::int) = [-1, -1]"
    by (simp add: numeral_2_eq_2)
  show ?thesis
    unfolding embed_literal_steps [OF parse_sample_literal u] r
    by (simp add: arg_type_def ascii_isupper_def)
qed







lemma length_embed_literal:
  "0 \<le> max_args \<Longrightarrow> length (embed_literal isupper literal vocab max_args) = 2 + nat max_args"
  by (auto simp: embed_literal_def Let_def py_slice_def slice_bound_def split: prod.splits)


















section \<open>Best-pair resolution\<close>

text \<open>
  Claim C4: best-pair resolution returns the inline \<open>best_pair\<close> when there is one;
  otherwise the entry of \<open>resolvable_pairs\<close> at \<open>best_pair_index\<close> when the index is there
  and within bounds; otherwise nothing.
\<close>

theorem extract_best_pair_resolution:
  "(best_pair ex = Some bp \<longrightarrow> extract_best_pair ex = Some bp) \<and>
   (best_pair ex = None \<and> best_pair_index ex = Some idx \<and>
      0 \<le> idx \<and> idx < int (length (resolvable_pairs ex)) \<longrightarrow>
      extract_best_pair ex = Some (resolvable_pairs ex ! nat idx)) \<and>
   (best_pair ex = None \<and>
      (best_pair_index ex = None \<or>
       (\<exists>i. best_pair_index ex = Some i \<and> (i < 0 \<or> int (length (resolvable_pairs ex)) \<le> i))) \<longrightarrow>
      extract_best_pair ex = None)"
  by (auto simp: extract_best_pair_def Let_def)

theorem extract_best_pair_resolution_witness:
  "extract_best_pair
     (sample_example [literal_pair 0 0 1 0] (Some (literal_pair 2 0 3 0)) (Some 0))
     = Some (literal_pair 2 0 3 0) \<and>
   extract_best_pair
     (sample_example [literal_pair 0 0 1 0, literal_pair 2 0 3 0] None (Some 1))
     = Some (literal_pair 2 0 3 0) \<and>
   extract_best_pair
     (sample_example [literal_pair 0 0 1 0, literal_pair 2 0 3 0] None (Some 2)) = None \<and>
   extract_best_pair
     (sample_example [literal_pair 0 0 1 0, literal_pair 2 0 3 0] None None) = None"
  using
    extract_best_pair_resolution
      [of "sample_example [literal_pair 0 0 1 0] (Some (literal_pair 2 0 3 0)) (Some 0)"
          "literal_pair 2 0 3 0"]
    extract_best_pair_resolution
      [of "sample_example [literal_pair 0 0 1 0, literal_pair 2 0 3 0] None (Some 1)" _ 1]
    extract_best_pair_resolution
      [of "sample_example [literal_pair 0 0 1 0, literal_pair 2 0 3 0] None (Some 2)"]
    extract_best_pair_resolution
      [of "sample_example [literal_pair 0 0 1 0, literal_pair 2 0 3 0] None None"]
  by (simp add: sample_example_def)

text \<open>
  Claim C10: with no inline \<open>best_pair\<close> and a negative \<open>best_pair_index\<close>, best-pair
  resolution returns nothing; the index is not counted from the end of the list.
\<close>

theorem negative_index_not_wrapped:
  "best_pair ex = None \<Longrightarrow> best_pair_index ex = Some idx \<Longrightarrow> idx < 0 \<Longrightarrow>
   extract_best_pair ex = None"
  by (simp add: extract_best_pair_def)

theorem negative_index_not_wrapped_witness:
  "best_pair (sample_example [literal_pair 0 0 1 0, literal_pair 2 0 3 0] None (Some (-1))) = None \<and>
   best_pair_index (sample_example [literal_pair 0 0 1 0, literal_pair 2 0 3 0] None (Some (-1)))
     = Some (-1) \<and>
   (-1 :: int) < 0 \<and>
   extract_best_pair (sample_example [literal_pair 0 0 1 0, literal_pair 2 0 3 0] None (Some (-1)))
     = None"
proof -
  let ?ex = "sample_example [literal_pair 0 0 1 0, literal_pair 2 0 3 0] None (Some (-1))"
  have a: "best_pair ?ex = None" and b: "best_pair_index ?ex = Some (-1)"
    by (simp_all add: sample_example_def)
  have c: "(-1 :: int) < 0" by simp
  show ?thesis
    using a b c negative_index_not_wrapped [OF a b c] by simp
qed

section \<open>Properties of the graph builder\<close>

subsection \<open>The node loops\<close>

lemma literal_loop_features:
  "fst (snd (literal_loop U V M ci li lits (nm, nf, g))) = nf @ map (\<lambda>lit. embed_literal U lit V M) lits"
  by (induction lits arbitrary: li nm nf g) simp_all

lemma clause_loop_features:
  "fst (snd (clause_loop U V M ci cs st)) =
     fst (snd st) @ concat (map (\<lambda>c. map (\<lambda>lit. embed_literal U lit V M) (snd (snd c))) cs)"
proof (induction cs arbitrary: ci st)
  case Nil
  then show ?case by simp
next
  case (Cons c cs)
  obtain nm nf g where st: "st = (nm, nf, g)" by (cases st) auto
  show ?case
    by (simp add: Cons.IH st literal_loop_features)
qed

lemma numbered_initial: "numbered (Map.empty, [], 0)"
  by (simp add: numbered_def)

lemma numbered_literal_loop:
  "numbered (nm, nf, g) \<Longrightarrow> numbered (literal_loop U V M ci li lits (nm, nf, g))"
proof (induction lits arbitrary: li nm nf g)
  case Nil
  then show ?case by simp
next
  case (Cons lit lits)
  have below: "\<And>k v. nm k = Some v \<Longrightarrow> v < g"
    and inj: "\<And>k k' v. nm k = Some v \<Longrightarrow> nm k' = Some v \<Longrightarrow> k = k'"
    using Cons.prems unfolding numbered_def by auto
  have "numbered (nm((int ci, int li) \<mapsto> g), nf @ [embed_literal U lit V M], g + 1)"
    unfolding numbered_def
  proof (intro conjI allI impI)
    fix k v
    assume "fst (nm((int ci, int li) \<mapsto> g), nf @ [embed_literal U lit V M], g + 1) k = Some v"
    then show "v < snd (snd (nm((int ci, int li) \<mapsto> g), nf @ [embed_literal U lit V M], g + 1))"
      using below [of k v] by (auto split: if_splits)
  next
    fix k k' v
    assume "fst (nm((int ci, int li) \<mapsto> g), nf @ [embed_literal U lit V M], g + 1) k = Some v"
      and "fst (nm((int ci, int li) \<mapsto> g), nf @ [embed_literal U lit V M], g + 1) k' = Some v"
    then show "k = k'"
      using below [of k v] below [of k' v] inj [of k v k']
      by (auto split: if_splits)
  qed
  then show ?case
    using Cons.IH by simp
qed

lemma numbered_clause_loop:
  "numbered st \<Longrightarrow> numbered (clause_loop U V M ci cs st)"
proof (induction cs arbitrary: ci st)
  case Nil
  then show ?case by simp
next
  case (Cons c cs)
  obtain nm nf g where st: "st = (nm, nf, g)" by (cases st) auto
  show ?case
    using Cons.prems Cons.IH numbered_literal_loop st by simp
qed

lemma dom_literal_loop:
  "dom (fst (literal_loop U V M ci li lits (nm, nf, g))) =
     dom nm \<union> {(int ci, int (li + n)) | n. n < length lits}"
proof (induction lits arbitrary: li nm nf g)
  case Nil
  then show ?case by simp
next
  case (Cons lit lits)
  have "{(int ci, int (li + n)) | n. n < length (lit # lits)} =
        insert (int ci, int li) {(int ci, int (li + 1 + n)) | n. n < length lits}"
  proof (intro set_eqI iffI)
    fix k assume "k \<in> {(int ci, int (li + n)) | n. n < length (lit # lits)}"
    then obtain n where n: "k = (int ci, int (li + n))" "n < Suc (length lits)" by auto
    show "k \<in> insert (int ci, int li) {(int ci, int (li + 1 + n)) | n. n < length lits}"
    proof (cases n)
      case 0
      then show ?thesis using n by simp
    next
      case (Suc m)
      then show ?thesis using n by auto
    qed
  next
    fix k assume "k \<in> insert (int ci, int li) {(int ci, int (li + 1 + n)) | n. n < length lits}"
    then consider "k = (int ci, int li)" | n where "k = (int ci, int (li + 1 + n))" "n < length lits"
      by auto
    then show "k \<in> {(int ci, int (li + n)) | n. n < length (lit # lits)}"
    proof cases
      case 1
      then have "k = (int ci, int (li + 0)) \<and> 0 < length (lit # lits)" by simp
      then show ?thesis by blast
    next
      case 2
      then have "k = (int ci, int (li + Suc n)) \<and> Suc n < length (lit # lits)" by simp
      then show ?thesis by blast
    qed
  qed
  then show ?case
    unfolding literal_loop.simps Cons.IH by auto
qed

lemma dom_clause_loop:
  "dom (fst (clause_loop U V M ci cs st)) =
     dom (fst st) \<union> {(int (ci + c), int l) | c l. c < length cs \<and> l < length (snd (snd (cs ! c)))}"
proof (induction cs arbitrary: ci st)
  case Nil
  then show ?case by simp
next
  case (Cons cl cs)
  obtain nm nf g where st: "st = (nm, nf, g)" by (cases st) auto
  let ?A = "{(int ci, int (0 + n)) | n. n < length (snd (snd cl))}"
  let ?B = "{(int (ci + 1 + c), int l) | c l. c < length cs \<and> l < length (snd (snd (cs ! c)))}"
  let ?C = "{(int (ci + c), int l) | c l. c < length (cl # cs) \<and> l < length (snd (snd ((cl # cs) ! c)))}"
  have "?C = ?A \<union> ?B"
  proof (intro set_eqI iffI)
    fix k assume "k \<in> ?C"
    then obtain c l where k: "k = (int (ci + c), int l)" "c < length (cl # cs)"
      "l < length (snd (snd ((cl # cs) ! c)))" by blast
    show "k \<in> ?A \<union> ?B"
    proof (cases c)
      case 0
      then show ?thesis using k by simp
    next
      case (Suc m)
      then have "k = (int (ci + 1 + m), int l) \<and> m < length cs \<and> l < length (snd (snd (cs ! m)))"
        using k by simp
      then show ?thesis by blast
    qed
  next
    fix k assume "k \<in> ?A \<union> ?B"
    then consider n where "k = (int ci, int n)" "n < length (snd (snd cl))"
      | c l where "k = (int (ci + 1 + c), int l)" "c < length cs" "l < length (snd (snd (cs ! c)))"
      by auto
    then show "k \<in> ?C"
    proof cases
      case 1
      then have "k = (int (ci + 0), int n) \<and> 0 < length (cl # cs) \<and>
                 n < length (snd (snd ((cl # cs) ! 0)))" by simp
      then show ?thesis by blast
    next
      case 2
      then have "k = (int (ci + Suc c), int l) \<and> Suc c < length (cl # cs) \<and>
                 l < length (snd (snd ((cl # cs) ! Suc c)))" by simp
      then show ?thesis by blast
    qed
  qed
  then show ?case
    unfolding st clause_loop.simps Cons.IH dom_literal_loop by auto
qed

subsection \<open>The pair loop\<close>

lemma add_pair_valid:
  assumes "lookup_node nm (clauseA_index p) (literalA_index p) = Some s"
    and "lookup_node nm (clauseB_index p) (literalB_index p) = Some d"
  shows "add_pair nm best p (es, ed, ls) =
           (es @ [s], ed @ [d], ls @ [if is_best best p then 1 else 0])"
proof -
  have "literalA_index p \<noteq> None" "literalB_index p \<noteq> None"
    using assms by (auto simp: lookup_node_def split: option.splits)
  then show ?thesis
    using assms by (simp add: add_pair_def)
qed

lemma add_pair_malformed:
  assumes "literalA_index p = None \<or> literalB_index p = None \<or>
           lookup_node nm (clauseA_index p) (literalA_index p) = None \<or>
           lookup_node nm (clauseB_index p) (literalB_index p) = None"
  shows "add_pair nm best p st = st"
  using assms by (cases st) (auto simp: add_pair_def split: option.splits)

lemma fold_add_pair_valid:
  assumes "\<forall>p \<in> set ps. lookup_node nm (clauseA_index p) (literalA_index p) \<noteq> None \<and>
                        lookup_node nm (clauseB_index p) (literalB_index p) \<noteq> None"
  shows "fold (add_pair nm best) ps (es, ed, ls) =
           (es @ map (\<lambda>p. the (lookup_node nm (clauseA_index p) (literalA_index p))) ps,
            ed @ map (\<lambda>p. the (lookup_node nm (clauseB_index p) (literalB_index p))) ps,
            ls @ map (\<lambda>p. if is_best best p then 1 else 0) ps)"
  using assms
proof (induction ps arbitrary: es ed ls)
  case Nil
  then show ?case by simp
next
  case (Cons p ps)
  obtain s d where sd: "lookup_node nm (clauseA_index p) (literalA_index p) = Some s"
      "lookup_node nm (clauseB_index p) (literalB_index p) = Some d"
    using Cons.prems by auto
  have rest: "\<forall>p \<in> set ps. lookup_node nm (clauseA_index p) (literalA_index p) \<noteq> None \<and>
                        lookup_node nm (clauseB_index p) (literalB_index p) \<noteq> None"
    using Cons.prems by simp
  show ?case
    by (simp add: add_pair_valid [OF sd] Cons.IH [OF rest] sd)
qed

lemma fold_add_pair_malformed:
  assumes "\<forall>p \<in> set ps. literalA_index p = None \<or> literalB_index p = None \<or>
             lookup_node nm (clauseA_index p) (literalA_index p) = None \<or>
             lookup_node nm (clauseB_index p) (literalB_index p) = None"
  shows "fold (add_pair nm best) ps st = st"
  using assms by (induction ps arbitrary: st) (simp_all add: add_pair_malformed)

subsection \<open>Symmetrisation\<close>

lemma set_to_undirected: "set (to_undirected es) = set es \<union> prod.swap ` set es"
  by (simp add: to_undirected_def)

lemma length_to_undirected:
  assumes "distinct es" and "\<forall>e \<in> set es. prod.swap e \<notin> set es"
  shows "length (to_undirected es) = 2 * length es"
proof -
  have "distinct (map prod.swap es)"
    using assms(1) by (auto simp: distinct_map inj_on_def)
  moreover have "set es \<inter> set (map prod.swap es) = {}"
    using assms(2) by force
  ultimately have "distinct (es @ map prod.swap es)"
    using assms(1) by simp
  then show ?thesis
    by (simp add: to_undirected_def distinct_remdups_id)
qed

lemma py_slice_all: "py_slice 0 (int (length xs)) xs = xs"
  by (simp add: py_slice_def slice_bound_def)

lemma filter_absent: "x \<notin> set xs \<Longrightarrow> filter (\<lambda>y. y = x) xs = []"
  by (induction xs) auto

lemma count_in_distinct:
  "distinct xs \<Longrightarrow> x \<in> set xs \<Longrightarrow> length (filter (\<lambda>y. y = x) xs) = 1"
  by (induction xs) (auto simp: filter_absent)

subsection \<open>The builder, one step at a time\<close>

lemma torch_stack_uniform:
  assumes "ts \<noteq> []" and "\<forall>t \<in> set ts. length t = n"
  shows "torch_stack ts = Inr ts"
proof -
  obtain t rest where t: "ts = t # rest" using assms(1) by (cases ts) auto
  show ?thesis
    using assms(2) by (simp add: torch_stack_def t list_all_iff)
qed

lemma build_graph_unfolded:
  assumes "clause_loop U V M 0 (clauses ex) (Map.empty, [], 0) = (nm, nf, g)"
    and "torch_stack nf = Inr nf"
    and "pair_loop nm (extract_best_pair ex) (resolvable_pairs ex) = (es, ed, ls)"
    and "es \<noteq> []"
  shows "build_graph_from_example U ex V M =
           Inr (Some \<lparr>data_x = nf, data_edge_index = to_undirected (zip es ed),
                       data_y = ls @ py_slice 0 (int (length (to_undirected (zip es ed)))
                                                   - int (length (zip es ed))) ls\<rparr>)"
  using assms by (simp add: build_graph_from_example_def Let_def)

lemma build_graph_stack_error:
  assumes "clause_loop U V M 0 (clauses ex) (Map.empty, [], 0) = (nm, nf, g)"
    and "torch_stack nf = Inl e"
  shows "build_graph_from_example U ex V M = Inl e"
  using assms by (simp add: build_graph_from_example_def Let_def)

lemma build_graph_unusable:
  assumes "clause_loop U V M 0 (clauses ex) (Map.empty, [], 0) = (nm, nf, g)"
    and "torch_stack nf = Inr nf"
    and "pair_loop nm (extract_best_pair ex) (resolvable_pairs ex) = ([], ed, ls)"
  shows "build_graph_from_example U ex V M = Inr None"
  using assms by (simp add: build_graph_from_example_def Let_def)

subsection \<open>The builder on the sample clauses\<close>

lemma nodes_four_clauses:
  "clause_loop U V M 0 four_clauses (Map.empty, [], 0) =
     ([(0, 0) \<mapsto> 0, (1, 0) \<mapsto> 1, (2, 0) \<mapsto> 2, (3, 0) \<mapsto> 3],
      map (\<lambda>lit. embed_literal U lit V M)
        [ustr ''P(x)'', 172 # ustr ''P(a)'', ustr ''Q(x)'', ustr ''~Q(a)''],
      4)"
  by (simp add: four_clauses_def unit_clause_def numeral_2_eq_2 numeral_3_eq_3)

lemma stack_four_clauses:
  "torch_stack (map (\<lambda>lit. embed_literal U lit V 3)
        [ustr ''P(x)'', 172 # ustr ''P(a)'', ustr ''Q(x)'', ustr ''~Q(a)''])
   = Inr (map (\<lambda>lit. embed_literal U lit V 3)
        [ustr ''P(x)'', 172 # ustr ''P(a)'', ustr ''Q(x)'', ustr ''~Q(a)''])"
  by (rule torch_stack_uniform [where n = 5]) (simp_all add: length_embed_literal)

lemma build_graph_sample:
  assumes "pair_loop [(0, 0) \<mapsto> 0, (1, 0) \<mapsto> 1, (2, 0) \<mapsto> 2, (3, 0) \<mapsto> 3]
             (extract_best_pair (sample_example pairs best idx)) pairs = (es, ed, ls)"
    and "es \<noteq> []"
  shows "build_graph_from_example U (sample_example pairs best idx) V 3 =
           Inr (Some \<lparr>data_x = map (\<lambda>lit. embed_literal U lit V 3)
                          [ustr ''P(x)'', 172 # ustr ''P(a)'', ustr ''Q(x)'', ustr ''~Q(a)''],
                       data_edge_index = to_undirected (zip es ed),
                       data_y = ls @ py_slice 0 (int (length (to_undirected (zip es ed)))
                                                   - int (length (zip es ed))) ls\<rparr>)"
proof (rule build_graph_unfolded)
  show "clause_loop U V 3 0 (clauses (sample_example pairs best idx)) (Map.empty, [], 0) =
     ([(0, 0) \<mapsto> 0, (1, 0) \<mapsto> 1, (2, 0) \<mapsto> 2, (3, 0) \<mapsto> 3],
      map (\<lambda>lit. embed_literal U lit V 3)
        [ustr ''P(x)'', 172 # ustr ''P(a)'', ustr ''Q(x)'', ustr ''~Q(a)''],
      4)"
    using nodes_four_clauses [of U V 3] by (simp add: sample_example_def)
  show "torch_stack (map (\<lambda>lit. embed_literal U lit V 3)
        [ustr ''P(x)'', 172 # ustr ''P(a)'', ustr ''Q(x)'', ustr ''~Q(a)''])
   = Inr (map (\<lambda>lit. embed_literal U lit V 3)
        [ustr ''P(x)'', 172 # ustr ''P(a)'', ustr ''Q(x)'', ustr ''~Q(a)''])"
    by (rule stack_four_clauses)
  show "pair_loop [(0, 0) \<mapsto> 0, (1, 0) \<mapsto> 1, (2, 0) \<mapsto> 2, (3, 0) \<mapsto> 3]
     (extract_best_pair (sample_example pairs best idx))
     (resolvable_pairs (sample_example pairs best idx)) = (es, ed, ls)"
    using assms(1) by (simp add: sample_example_def)
  show "es \<noteq> []" by (rule assms(2))
qed

lemma pairs_of_sample: "resolvable_pairs (sample_example pairs best idx) = pairs"
  by (simp add: sample_example_def)

lemma best_of_samples:
  "extract_best_pair (sample_example [literal_pair 0 0 1 0, literal_pair 2 0 3 0] None (Some 0))
     = Some (literal_pair 0 0 1 0)"
  "extract_best_pair (sample_example [literal_pair 0 0 1 0, literal_pair 1 0 0 0] None (Some 0))
     = Some (literal_pair 0 0 1 0)"
  "extract_best_pair (sample_example [literal_pair 0 0 1 0] None None) = None"
  by (simp_all add: extract_best_pair_def sample_example_def)

lemma pair_loop_samples:
  "pair_loop [(0, 0) \<mapsto> 0, (1, 0) \<mapsto> 1, (2, 0) \<mapsto> 2, (3, 0) \<mapsto> 3]
     (Some (literal_pair 0 0 1 0)) [literal_pair 0 0 1 0, literal_pair 2 0 3 0]
   = ([0, 2], [1, 3], [1, 0])"
  "pair_loop [(0, 0) \<mapsto> 0, (1, 0) \<mapsto> 1, (2, 0) \<mapsto> 2, (3, 0) \<mapsto> 3]
     (Some (literal_pair 0 0 1 0)) [literal_pair 0 0 1 0, literal_pair 1 0 0 0]
   = ([0, 1], [1, 0], [1, 0])"
  "pair_loop [(0, 0) \<mapsto> 0, (1, 0) \<mapsto> 1, (2, 0) \<mapsto> 2, (3, 0) \<mapsto> 3]
     None [literal_pair 0 0 1 0]
   = ([0], [1], [0])"
  by (simp_all add: pair_loop_def add_pair_def lookup_node_def literal_pair_def is_best_def)

lemma undirected_samples:
  "to_undirected (zip [0, 2] [1, 3]) = [(0, 1), (1, 0), (2, 3), (3, 2)]"
  "to_undirected (zip [0, 1] [1, 0]) = [(0, 1), (1, 0)]"
  "to_undirected (zip [0] [1]) = [(0, 1), (1, 0)]"
  by (simp_all add: to_undirected_def)

subsection \<open>Edge counts and labels\<close>

text \<open>
  Claim C3, as amended: let every entry of \<open>resolvable_pairs\<close> reference an existing node,
  let the entries be pairwise different, let no entry be the reverse of an entry (so none
  links a literal to itself), let the resolved best pair be one of them, and let
  \<open>max_args \<ge> 0\<close>. Then \<open>build_graph_from_example\<close> returns a graph with exactly twice as
  many edges as there are entries and one label per edge, and exactly two labels are 1.
\<close>

theorem distinct_pairs_graph:
  assumes margs: "0 \<le> max_args"
    and refs: "\<forall>p \<in> set (resolvable_pairs ex). \<exists>i a j b.
        clauseA_index p = Some (int i) \<and> literalA_index p = Some (int a) \<and>
        clauseB_index p = Some (int j) \<and> literalB_index p = Some (int b) \<and>
        i < length (clauses ex) \<and> a < length (snd (snd (clauses ex ! i))) \<and>
        j < length (clauses ex) \<and> b < length (snd (snd (clauses ex ! j)))"
    and dist: "distinct (resolvable_pairs ex)"
    and norev: "\<forall>p \<in> set (resolvable_pairs ex). \<forall>q \<in> set (resolvable_pairs ex).
        \<not> (clauseA_index p = clauseB_index q \<and> literalA_index p = literalB_index q \<and>
           clauseB_index p = clauseA_index q \<and> literalB_index p = literalA_index q)"
    and best: "extract_best_pair ex = Some bp"
    and among: "bp \<in> set (resolvable_pairs ex)"
  shows "\<exists>d. build_graph_from_example isupper ex vocab max_args = Inr (Some d) \<and>
             length (data_edge_index d) = 2 * length (resolvable_pairs ex) \<and>
             length (data_y d) = length (data_edge_index d) \<and>
             length (filter (\<lambda>l. l = 1) (data_y d)) = 2"
proof -
  let ?rp = "resolvable_pairs ex"
  obtain nm nf g where st:
    "clause_loop isupper vocab max_args 0 (clauses ex) (Map.empty, [], 0) = (nm, nf, g)"
    by (cases "clause_loop isupper vocab max_args 0 (clauses ex) (Map.empty, [], 0)") auto
  have num: "numbered (nm, nf, g)"
    using numbered_clause_loop [OF numbered_initial, of isupper vocab max_args 0 "clauses ex"] st
    by simp
  have inj: "\<And>k k' v. nm k = Some v \<Longrightarrow> nm k' = Some v \<Longrightarrow> k = k'"
    using num unfolding numbered_def by auto
  have dom: "dom nm = {(int c, int l) | c l. c < length (clauses ex) \<and>
                         l < length (snd (snd (clauses ex ! c)))}"
    using dom_clause_loop [of isupper vocab max_args 0 "clauses ex" "(Map.empty, [], 0)"] st
    by simp
  have nf: "nf = concat (map (\<lambda>c. map (\<lambda>lit. embed_literal isupper lit vocab max_args)
                                    (snd (snd c))) (clauses ex))"
    using clause_loop_features [of isupper vocab max_args 0 "clauses ex" "(Map.empty, [], 0)"] st
    by simp
  let ?sA = "\<lambda>p. the (lookup_node nm (clauseA_index p) (literalA_index p))"
  let ?sB = "\<lambda>p. the (lookup_node nm (clauseB_index p) (literalB_index p))"
  let ?lab = "\<lambda>p. if is_best (Some bp) p then 1 else (0::int)"
  have found: "\<And>p. p \<in> set ?rp \<Longrightarrow>
      (\<exists>i a. clauseA_index p = Some i \<and> literalA_index p = Some a \<and> nm (i, a) = Some (?sA p)) \<and>
      (\<exists>j b. clauseB_index p = Some j \<and> literalB_index p = Some b \<and> nm (j, b) = Some (?sB p))"
  proof -
    fix p assume "p \<in> set ?rp"
    then obtain i a j b where p:
      "clauseA_index p = Some (int i)" "literalA_index p = Some (int a)"
      "clauseB_index p = Some (int j)" "literalB_index p = Some (int b)"
      "i < length (clauses ex)" "a < length (snd (snd (clauses ex ! i)))"
      "j < length (clauses ex)" "b < length (snd (snd (clauses ex ! j)))"
      using refs by blast
    have "(int i, int a) \<in> dom nm" "(int j, int b) \<in> dom nm"
      unfolding dom using p by blast+
    then obtain s d where "nm (int i, int a) = Some s" "nm (int j, int b) = Some d"
      by blast
    then show "(\<exists>i a. clauseA_index p = Some i \<and> literalA_index p = Some a \<and> nm (i, a) = Some (?sA p)) \<and>
      (\<exists>j b. clauseB_index p = Some j \<and> literalB_index p = Some b \<and> nm (j, b) = Some (?sB p))"
      using p by (simp add: lookup_node_def)
  qed
  have valid: "\<forall>p \<in> set ?rp. lookup_node nm (clauseA_index p) (literalA_index p) \<noteq> None \<and>
                        lookup_node nm (clauseB_index p) (literalB_index p) \<noteq> None"
  proof
    fix p assume "p \<in> set ?rp"
    from found [OF this] show "lookup_node nm (clauseA_index p) (literalA_index p) \<noteq> None \<and>
                        lookup_node nm (clauseB_index p) (literalB_index p) \<noteq> None"
      by (auto simp: lookup_node_def)
  qed
  have loop: "pair_loop nm (extract_best_pair ex) ?rp = (map ?sA ?rp, map ?sB ?rp, map ?lab ?rp)"
    unfolding pair_loop_def best
    using fold_add_pair_valid [OF valid, of "Some bp" "[]" "[]" "[]"] by simp
  have nonempty: "?rp \<noteq> []"
    using among by auto
  have stack: "torch_stack nf = Inr nf"
  proof (rule torch_stack_uniform)
    obtain i a where ia: "clauseA_index bp = Some (int i)" "i < length (clauses ex)"
        "a < length (snd (snd (clauses ex ! i)))"
      using refs among by blast
    then have "snd (snd (clauses ex ! i)) \<noteq> []" by auto
    moreover have "clauses ex ! i \<in> set (clauses ex)" using ia by simp
    ultimately show "nf \<noteq> []"
      unfolding nf by auto
    show "\<forall>t \<in> set nf. length t = 2 + nat max_args"
      unfolding nf using margs by (auto simp: length_embed_literal)
  qed
  let ?edges = "map (\<lambda>p. (?sA p, ?sB p)) ?rp"
  have zip: "zip (map ?sA ?rp) (map ?sB ?rp) = ?edges"
    by (simp add: zip_map_map zip_same_conv_map)
  have same_pair: "\<And>p q. p \<in> set ?rp \<Longrightarrow> q \<in> set ?rp \<Longrightarrow> ?sA p = ?sA q \<Longrightarrow> ?sB p = ?sB q \<Longrightarrow> p = q"
  proof -
    fix p q assume pq: "p \<in> set ?rp" "q \<in> set ?rp" and e: "?sA p = ?sA q" "?sB p = ?sB q"
    obtain i a j b where p: "clauseA_index p = Some i" "literalA_index p = Some a"
        "nm (i, a) = Some (?sA p)" "clauseB_index p = Some j" "literalB_index p = Some b"
        "nm (j, b) = Some (?sB p)"
      using found [OF pq(1)] by blast
    obtain i' a' j' b' where q: "clauseA_index q = Some i'" "literalA_index q = Some a'"
        "nm (i', a') = Some (?sA q)" "clauseB_index q = Some j'" "literalB_index q = Some b'"
        "nm (j', b') = Some (?sB q)"
      using found [OF pq(2)] by blast
    have "(i, a) = (i', a')"
      using inj [OF p(3), of "(i', a')"] q(3) e(1) by simp
    moreover have "(j, b) = (j', b')"
      using inj [OF p(6), of "(j', b')"] q(6) e(2) by simp
    ultimately show "p = q"
      using p q by (intro rpair.equality) simp_all
  qed
  have d_edges: "distinct ?edges"
    using dist same_pair by (auto simp: distinct_map inj_on_def)
  have no_swap: "\<forall>e \<in> set ?edges. prod.swap e \<notin> set ?edges"
  proof
    fix e assume "e \<in> set ?edges"
    then obtain p where p: "p \<in> set ?rp" "e = (?sA p, ?sB p)" by auto
    show "prod.swap e \<notin> set ?edges"
    proof
      assume "prod.swap e \<in> set ?edges"
      then obtain q where q: "q \<in> set ?rp" "?sB p = ?sA q" "?sA p = ?sB q"
        using p(2) by auto
      obtain i a j b where fp: "clauseA_index p = Some i" "literalA_index p = Some a"
          "nm (i, a) = Some (?sA p)" "clauseB_index p = Some j" "literalB_index p = Some b"
          "nm (j, b) = Some (?sB p)"
        using found [OF p(1)] by blast
      obtain i' a' j' b' where fq: "clauseA_index q = Some i'" "literalA_index q = Some a'"
          "nm (i', a') = Some (?sA q)" "clauseB_index q = Some j'" "literalB_index q = Some b'"
          "nm (j', b') = Some (?sB q)"
        using found [OF q(1)] by blast
      have "(i, a) = (j', b')"
        using inj [OF fp(3), of "(j', b')"] fq(6) q(3) by simp
      moreover have "(j, b) = (i', a')"
        using inj [OF fp(6), of "(i', a')"] fq(3) q(2) by simp
      ultimately have "clauseA_index p = clauseB_index q \<and> literalA_index p = literalB_index q \<and>
           clauseB_index p = clauseA_index q \<and> literalB_index p = literalA_index q"
        using fp fq by simp
      then show False
        using norev p(1) q(1) by blast
    qed
  qed
  have len: "length (to_undirected ?edges) = 2 * length ?rp"
    using length_to_undirected [OF d_edges no_swap] by simp
  have added: "int (length (to_undirected ?edges)) - int (length ?edges) = int (length (map ?lab ?rp))"
    using len by simp
  have bp_lits: "literalA_index bp \<noteq> None" "literalB_index bp \<noteq> None"
    using found [OF among] by auto
  have lab: "\<And>p. is_best (Some bp) p \<longleftrightarrow> p = bp"
    using bp_lits by (auto simp: is_best_def intro: rpair.equality)
  have "filter (\<lambda>l. l = 1) (map ?lab ?rp) = map ?lab (filter (\<lambda>p. p = bp) ?rp)"
    by (simp add: filter_map comp_def lab)
  then have ones: "length (filter (\<lambda>l. l = 1) (map ?lab ?rp)) = 1"
    using count_in_distinct [OF dist among] by simp
  have ne: "map ?sA ?rp \<noteq> []"
    using nonempty by simp
  have bg: "build_graph_from_example isupper ex vocab max_args =
      Inr (Some \<lparr>data_x = nf, data_edge_index = to_undirected ?edges,
                  data_y = map ?lab ?rp @ map ?lab ?rp\<rparr>)"
    unfolding build_graph_unfolded [OF st stack loop ne] zip added py_slice_all ..
  show ?thesis
    unfolding bg using len ones by simp
qed

theorem distinct_pairs_graph_witness:
  "(0::int) \<le> 3 \<and>
   distinct (resolvable_pairs
     (sample_example [literal_pair 0 0 1 0, literal_pair 2 0 3 0] None (Some 0))) \<and>
   extract_best_pair (sample_example [literal_pair 0 0 1 0, literal_pair 2 0 3 0] None (Some 0))
     = Some (literal_pair 0 0 1 0) \<and>
   literal_pair 0 0 1 0 \<in> set (resolvable_pairs
     (sample_example [literal_pair 0 0 1 0, literal_pair 2 0 3 0] None (Some 0))) \<and>
   (\<exists>d. build_graph_from_example ascii_isupper
          (sample_example [literal_pair 0 0 1 0, literal_pair 2 0 3 0] None (Some 0)) Map.empty 3
        = Inr (Some d) \<and>
        length (data_edge_index d) = 4 \<and> length (data_y d) = 4 \<and>
        length (filter (\<lambda>l. l = 1) (data_y d)) = 2)"
proof -
  let ?ex = "sample_example [literal_pair 0 0 1 0, literal_pair 2 0 3 0] None (Some 0)"
  have cl: "clauses ?ex = four_clauses"
    by (simp add: sample_example_def)
  have margs: "(0::int) \<le> 3" by simp
  have refs: "\<forall>p \<in> set (resolvable_pairs ?ex). \<exists>i a j b.
        clauseA_index p = Some (int i) \<and> literalA_index p = Some (int a) \<and>
        clauseB_index p = Some (int j) \<and> literalB_index p = Some (int b) \<and>
        i < length (clauses ?ex) \<and> a < length (snd (snd (clauses ?ex ! i))) \<and>
        j < length (clauses ?ex) \<and> b < length (snd (snd (clauses ?ex ! j)))"
    unfolding pairs_of_sample cl
  proof
    fix p assume "p \<in> set [literal_pair 0 0 1 0, literal_pair 2 0 3 0]"
    then consider "p = literal_pair 0 0 1 0" | "p = literal_pair 2 0 3 0" by auto
    then show "\<exists>i a j b.
        clauseA_index p = Some (int i) \<and> literalA_index p = Some (int a) \<and>
        clauseB_index p = Some (int j) \<and> literalB_index p = Some (int b) \<and>
        i < length four_clauses \<and> a < length (snd (snd (four_clauses ! i))) \<and>
        j < length four_clauses \<and> b < length (snd (snd (four_clauses ! j)))"
    proof cases
      case 1
      have "clauseA_index p = Some (int 0) \<and> literalA_index p = Some (int 0) \<and>
        clauseB_index p = Some (int 1) \<and> literalB_index p = Some (int 0) \<and>
        0 < length four_clauses \<and> 0 < length (snd (snd (four_clauses ! 0))) \<and>
        1 < length four_clauses \<and> 0 < length (snd (snd (four_clauses ! 1)))"
        by (simp add: 1 literal_pair_def four_clauses_def unit_clause_def)
      then show ?thesis by blast
    next
      case 2
      have "clauseA_index p = Some (int 2) \<and> literalA_index p = Some (int 0) \<and>
        clauseB_index p = Some (int 3) \<and> literalB_index p = Some (int 0) \<and>
        2 < length four_clauses \<and> 0 < length (snd (snd (four_clauses ! 2))) \<and>
        3 < length four_clauses \<and> 0 < length (snd (snd (four_clauses ! 3)))"
        by (simp add: 2 literal_pair_def four_clauses_def unit_clause_def)
      then show ?thesis by blast
    qed
  qed
  have dist: "distinct (resolvable_pairs ?ex)"
    by (simp add: pairs_of_sample literal_pair_def)
  have norev: "\<forall>p \<in> set (resolvable_pairs ?ex). \<forall>q \<in> set (resolvable_pairs ?ex).
        \<not> (clauseA_index p = clauseB_index q \<and> literalA_index p = literalB_index q \<and>
           clauseB_index p = clauseA_index q \<and> literalB_index p = literalA_index q)"
    by (simp add: pairs_of_sample literal_pair_def)
  have best: "extract_best_pair ?ex = Some (literal_pair 0 0 1 0)"
    by (rule best_of_samples)
  have among: "literal_pair 0 0 1 0 \<in> set (resolvable_pairs ?ex)"
    by (simp add: pairs_of_sample)
  show ?thesis
    using margs dist best among
      distinct_pairs_graph [OF margs refs dist norev best among, of ascii_isupper Map.empty]
    by (auto simp add: pairs_of_sample)
qed

text \<open>
  Claim C3 fails as stated: with a pair and its reverse both listed, every entry references
  an existing node and the best pair is among them, but the graph has two edges, not four,
  and one label 1, not two.
\<close>

theorem reversed_pairs_counterexample:
  "extract_best_pair (sample_example [literal_pair 0 0 1 0, literal_pair 1 0 0 0] None (Some 0))
     = Some (literal_pair 0 0 1 0) \<and>
   build_graph_from_example ascii_isupper
     (sample_example [literal_pair 0 0 1 0, literal_pair 1 0 0 0] None (Some 0)) Map.empty 3
   = Inr (Some \<lparr>data_x = map (\<lambda>lit. embed_literal ascii_isupper lit Map.empty 3)
                    [ustr ''P(x)'', 172 # ustr ''P(a)'', ustr ''Q(x)'', ustr ''~Q(a)''],
                data_edge_index = [(0, 1), (1, 0)],
                data_y = [1, 0]\<rparr>) \<and>
   length [(0, 1), (1, 0 :: nat)] \<noteq>
     2 * length (resolvable_pairs
                   (sample_example [literal_pair 0 0 1 0, literal_pair 1 0 0 0] None (Some 0))) \<and>
   length (filter (\<lambda>l. l = 1) [1, 0 :: int]) \<noteq> 2"
proof -
  have l: "pair_loop [(0, 0) \<mapsto> 0, (1, 0) \<mapsto> 1, (2, 0) \<mapsto> 2, (3, 0) \<mapsto> 3]
      (extract_best_pair (sample_example [literal_pair 0 0 1 0, literal_pair 1 0 0 0] None (Some 0)))
      [literal_pair 0 0 1 0, literal_pair 1 0 0 0] = ([0, 1], [1, 0], [1, 0])"
    by (simp only: best_of_samples pair_loop_samples)
  have n: "[0, 1 :: nat] \<noteq> []" by simp
  have g: "build_graph_from_example ascii_isupper
     (sample_example [literal_pair 0 0 1 0, literal_pair 1 0 0 0] None (Some 0)) Map.empty 3
   = Inr (Some \<lparr>data_x = map (\<lambda>lit. embed_literal ascii_isupper lit Map.empty 3)
                    [ustr ''P(x)'', 172 # ustr ''P(a)'', ustr ''Q(x)'', ustr ''~Q(a)''],
                data_edge_index = [(0, 1), (1, 0)],
                data_y = [1, 0]\<rparr>)"
    unfolding build_graph_sample [OF l n] undirected_samples
    by (simp add: py_slice_def slice_bound_def)
  show ?thesis
    using g best_of_samples(2) by (simp add: pairs_of_sample)
qed

text \<open>
  Claim C2, at an input where the code breaks it: two resolvable pairs on four literals, the
  first one the best pair. \<open>to_undirected\<close> returns the four edges sorted, the labels stay
  in the order \<open>labels + labels[:added]\<close>, and so the edge \<open>(0, 1)\<close> carries label 1 while
  its reverse \<open>(1, 0)\<close> carries label 0, and \<open>(2, 3)\<close>, which is not the best pair, carries
  label 1.
\<close>

theorem twin_label_mismatch:
  "build_graph_from_example U
     (sample_example [literal_pair 0 0 1 0, literal_pair 2 0 3 0] None (Some 0)) V 3
   = Inr (Some \<lparr>data_x = map (\<lambda>lit. embed_literal U lit V 3)
                    [ustr ''P(x)'', 172 # ustr ''P(a)'', ustr ''Q(x)'', ustr ''~Q(a)''],
                data_edge_index = [(0, 1), (1, 0), (2, 3), (3, 2)],
                data_y = [1, 0, 1, 0]\<rparr>)"
proof -
  have l: "pair_loop [(0, 0) \<mapsto> 0, (1, 0) \<mapsto> 1, (2, 0) \<mapsto> 2, (3, 0) \<mapsto> 3]
      (extract_best_pair (sample_example [literal_pair 0 0 1 0, literal_pair 2 0 3 0] None (Some 0)))
      [literal_pair 0 0 1 0, literal_pair 2 0 3 0] = ([0, 2], [1, 3], [1, 0])"
    by (simp only: best_of_samples pair_loop_samples)
  have n: "[0, 2 :: nat] \<noteq> []" by simp
  show ?thesis
    unfolding build_graph_sample [OF l n] undirected_samples
    by (simp add: py_slice_def slice_bound_def)
qed

subsection \<open>Examples without a valid pair\<close>

text \<open>
  Where at least one literal exists (and \<open>max_args \<ge> 0\<close>), an example whose pairs are all
  malformed does give the unusable signal.
\<close>

lemma unusable_without_valid_pair:
  assumes margs: "0 \<le> max_args"
    and some: "\<exists>c \<in> set (clauses ex). snd (snd c) \<noteq> []"
    and malformed: "\<forall>p \<in> set (resolvable_pairs ex). \<not> (\<exists>i a j b.
        clauseA_index p = Some (int i) \<and> literalA_index p = Some (int a) \<and>
        clauseB_index p = Some (int j) \<and> literalB_index p = Some (int b) \<and>
        i < length (clauses ex) \<and> a < length (snd (snd (clauses ex ! i))) \<and>
        j < length (clauses ex) \<and> b < length (snd (snd (clauses ex ! j))))"
  shows "build_graph_from_example isupper ex vocab max_args = Inr None"
proof -
  obtain nm nf g where st:
    "clause_loop isupper vocab max_args 0 (clauses ex) (Map.empty, [], 0) = (nm, nf, g)"
    by (cases "clause_loop isupper vocab max_args 0 (clauses ex) (Map.empty, [], 0)") auto
  have dom: "dom nm = {(int c, int l) | c l. c < length (clauses ex) \<and>
                         l < length (snd (snd (clauses ex ! c)))}"
    using dom_clause_loop [of isupper vocab max_args 0 "clauses ex" "(Map.empty, [], 0)"] st
    by simp
  have nf: "nf = concat (map (\<lambda>c. map (\<lambda>lit. embed_literal isupper lit vocab max_args)
                                    (snd (snd c))) (clauses ex))"
    using clause_loop_features [of isupper vocab max_args 0 "clauses ex" "(Map.empty, [], 0)"] st
    by simp
  have stack: "torch_stack nf = Inr nf"
  proof (rule torch_stack_uniform)
    show "nf \<noteq> []" unfolding nf using some by auto
    show "\<forall>t \<in> set nf. length t = 2 + nat max_args"
      unfolding nf using margs by (auto simp: length_embed_literal)
  qed
  have bad: "\<forall>p \<in> set (resolvable_pairs ex). literalA_index p = None \<or> literalB_index p = None \<or>
             lookup_node nm (clauseA_index p) (literalA_index p) = None \<or>
             lookup_node nm (clauseB_index p) (literalB_index p) = None"
  proof (intro ballI, rule ccontr)
    fix p assume p: "p \<in> set (resolvable_pairs ex)"
      and "\<not> (literalA_index p = None \<or> literalB_index p = None \<or>
             lookup_node nm (clauseA_index p) (literalA_index p) = None \<or>
             lookup_node nm (clauseB_index p) (literalB_index p) = None)"
    then obtain s d where sd: "lookup_node nm (clauseA_index p) (literalA_index p) = Some s"
        "lookup_node nm (clauseB_index p) (literalB_index p) = Some d"
      by auto
    from sd(1) obtain ci li where A: "clauseA_index p = Some ci" "literalA_index p = Some li"
        "nm (ci, li) = Some s"
      by (auto simp: lookup_node_def split: option.splits)
    from sd(2) obtain cj lj where B: "clauseB_index p = Some cj" "literalB_index p = Some lj"
        "nm (cj, lj) = Some d"
      by (auto simp: lookup_node_def split: option.splits)
    have "(ci, li) \<in> dom nm" "(cj, lj) \<in> dom nm"
      using A B by auto
    then obtain i a j b where "ci = int i" "li = int a" "i < length (clauses ex)"
        "a < length (snd (snd (clauses ex ! i)))" "cj = int j" "lj = int b"
        "j < length (clauses ex)" "b < length (snd (snd (clauses ex ! j)))"
      unfolding dom by auto
    then have "\<exists>i a j b.
        clauseA_index p = Some (int i) \<and> literalA_index p = Some (int a) \<and>
        clauseB_index p = Some (int j) \<and> literalB_index p = Some (int b) \<and>
        i < length (clauses ex) \<and> a < length (snd (snd (clauses ex ! i))) \<and>
        j < length (clauses ex) \<and> b < length (snd (snd (clauses ex ! j)))"
      using A B by blast
    then show False
      using malformed p by blast
  qed
  have loop: "pair_loop nm (extract_best_pair ex) (resolvable_pairs ex) = ([], [], [])"
    unfolding pair_loop_def by (rule fold_add_pair_malformed [OF bad])
  show ?thesis
    by (rule build_graph_unusable [OF st stack loop])
qed

text \<open>
  Claim C5, at an input where the code breaks it: the only clause has no literal, so the
  only resolvable pair is dangling; \<open>torch.stack\<close> raises on the empty list of node
  features before the pairs are looked at.
\<close>

theorem no_literal_raises:
  "build_graph_from_example U
     \<lparr>problem_id = Some (ustr ''p2''), clauses = [(ustr ''c0'', ustr ''axiom'', [])],
      resolvable_pairs = [literal_pair 0 0 0 1], best_pair = Some (literal_pair 0 0 0 1),
      best_pair_index = None\<rparr> V M
   = Inl RuntimeError"
  by (rule build_graph_stack_error [where nm = Map.empty and nf = "[]" and g = 0])
     (simp_all add: torch_stack_def)

section \<open>Properties of the dataset\<close>

subsection \<open>The examples kept\<close>

lemma dataset_init_fields:
  "examples (dataset_init loaded predicate_list max_args use_cache) = loaded"
  "cache (dataset_init loaded predicate_list max_args use_cache) = Map.empty"
  "cache_enabled (dataset_init loaded predicate_list max_args use_cache) = use_cache"
  "ds_max_args (dataset_init loaded predicate_list max_args use_cache) = max_args"
  by (simp_all add: dataset_init_def Let_def)

lemma dataset_get_fresh:
  assumes "i < length loaded"
  shows "fst (dataset_get U (dataset_init loaded predicate_list max_args use_cache) (int i)) =
           build_graph_from_example U (loaded ! i)
             (predicate_to_idx (dataset_init loaded predicate_list max_args use_cache)) max_args"
  using assms
  by (cases use_cache)
     (simp_all add: dataset_get_def dataset_init_fields py_index_def split: sum.splits)

text \<open>
  Claim C1, at an input where the code breaks it: an example with no inline \<open>best_pair\<close> and
  no \<open>best_pair_index\<close>. The constructor computes the filtered list and then assigns the
  unfiltered one to \<open>self.examples\<close>, so the example stays in the dataset and \<open>get(0)\<close>
  hands it to the graph builder, which returns a graph with no edge labelled 1.
\<close>

theorem unresolvable_example_kept:
  "extract_best_pair (sample_example [literal_pair 0 0 1 0] None None) = None \<and>
   examples (dataset_init [sample_example [literal_pair 0 0 1 0] None None] None 3 True)
     = [sample_example [literal_pair 0 0 1 0] None None] \<and>
   fst (dataset_get U
          (dataset_init [sample_example [literal_pair 0 0 1 0] None None] None 3 True) 0)
     = build_graph_from_example U (sample_example [literal_pair 0 0 1 0] None None)
         (predicate_to_idx
            (dataset_init [sample_example [literal_pair 0 0 1 0] None None] None 3 True)) 3 \<and>
   build_graph_from_example U (sample_example [literal_pair 0 0 1 0] None None) V 3
     = Inr (Some \<lparr>data_x = map (\<lambda>lit. embed_literal U lit V 3)
                      [ustr ''P(x)'', 172 # ustr ''P(a)'', ustr ''Q(x)'', ustr ''~Q(a)''],
                  data_edge_index = [(0, 1), (1, 0)],
                  data_y = [0, 0]\<rparr>)"
proof -
  let ?ex = "sample_example [literal_pair 0 0 1 0] None None"
  have l: "pair_loop [(0, 0) \<mapsto> 0, (1, 0) \<mapsto> 1, (2, 0) \<mapsto> 2, (3, 0) \<mapsto> 3]
      (extract_best_pair ?ex) [literal_pair 0 0 1 0] = ([0], [1], [0])"
    by (simp only: best_of_samples pair_loop_samples)
  have n: "[0 :: nat] \<noteq> []" by simp
  have g: "build_graph_from_example U ?ex V 3
     = Inr (Some \<lparr>data_x = map (\<lambda>lit. embed_literal U lit V 3)
                      [ustr ''P(x)'', 172 # ustr ''P(a)'', ustr ''Q(x)'', ustr ''~Q(a)''],
                  data_edge_index = [(0, 1), (1, 0)],
                  data_y = [0, 0]\<rparr>)"
    unfolding build_graph_sample [OF l n] undirected_samples
    by (simp add: py_slice_def slice_bound_def)
  have d: "fst (dataset_get U (dataset_init [?ex] None 3 True) 0)
     = build_graph_from_example U ?ex (predicate_to_idx (dataset_init [?ex] None 3 True)) 3"
    using dataset_get_fresh [of 0 "[?ex]" U None 3 True] by simp
  show ?thesis
    using g d best_of_samples(3) by (simp add: dataset_init_fields)
qed

subsection \<open>The vocabulary\<close>

























section \<open>Properties of the evaluation\<close>

lemma count_equal_aligned:
  "length pred = length ys \<Longrightarrow>
   count_equal pred ys = Inr (length (filter (\<lambda>(p, t). p = t) (zip pred ys)))"
  by (simp add: count_equal_def)

lemma matches_le_labels: "length (filter P (zip pred ys)) \<le> length ys"
proof -
  have "length (filter P (zip pred ys)) \<le> length (zip pred ys)"
    by (rule length_filter_le)
  then show ?thesis by simp
qed

lemma evaluate_loop_aligned:
  assumes "list_all (\<lambda>b. batch_y b = [] \<or>
                     length (model (batch_x b) (batch_edge_index b)) = length (batch_y b)) loader"
  shows "evaluate_loop model loader (c, t) =
           Inr (c + sum_list (map (\<lambda>b. length (filter (\<lambda>(p, t). p = t)
                         (zip (model (batch_x b) (batch_edge_index b)) (batch_y b)))) loader),
                t + sum_list (map (\<lambda>b. length (batch_y b)) loader))"
  using assms
proof (induction loader arbitrary: c t)
  case Nil
  then show ?case by simp
next
  case (Cons b bs)
  have al: "batch_y b = [] \<or>
            length (model (batch_x b) (batch_edge_index b)) = length (batch_y b)"
    and rest: "list_all (\<lambda>b. batch_y b = [] \<or>
                     length (model (batch_x b) (batch_edge_index b)) = length (batch_y b)) bs"
    using Cons.prems by simp_all
  show ?case
  proof (cases "length (batch_y b) = 0")
    case True
    then show ?thesis
      using Cons.IH [OF rest] by simp
  next
    case False
    then have "length (model (batch_x b) (batch_edge_index b)) = length (batch_y b)"
      using al by auto
    then show ?thesis
      using False Cons.IH [OF rest] count_equal_aligned by (simp add: add.assoc)
  qed
qed

lemma evaluate_loop_unlabelled:
  "list_all (\<lambda>b. batch_y b = []) loader \<Longrightarrow> evaluate_loop model loader (c, t) = Inr (c, t)"
  by (induction loader arbitrary: c t) simp_all

lemma sum_matches_le:
  "sum_list (map (\<lambda>b. length (filter P (zip (f b) (batch_y b)))) loader)
     \<le> sum_list (map (\<lambda>b. length (batch_y b)) loader)"
  by (rule sum_list_mono) (rule matches_le_labels)

text \<open>
  Claim C8, as amended: for every loader whose batches each carry no label or as many
  labels as the model predicts edges, \<open>evaluate\<close> returns the number of correct predictions divided by the
  number of labelled edges, a value between 0 and 1 (0 when there is no labelled edge);
  and for every loader whose batches all have no label it returns exactly 0, without error.
\<close>

theorem evaluate_accuracy:
  "(list_all (\<lambda>b. batch_y b = [] \<or>
                     length (model (batch_x b) (batch_edge_index b)) = length (batch_y b)) loader \<longrightarrow>
      (\<exists>acc. evaluate model loader = Inr acc \<and> 0 \<le> acc \<and> acc \<le> 1 \<and>
         acc = (if sum_list (map (\<lambda>b. length (batch_y b)) loader) = 0 then 0
                else of_nat (sum_list (map (\<lambda>b. length (filter (\<lambda>(p, t). p = t)
                         (zip (model (batch_x b) (batch_edge_index b)) (batch_y b)))) loader))
                     / of_nat (sum_list (map (\<lambda>b. length (batch_y b)) loader))))) \<and>
   (list_all (\<lambda>b. batch_y b = []) loader \<longrightarrow> evaluate model loader = Inr 0)"
proof (intro conjI impI)
  let ?C = "sum_list (map (\<lambda>b. length (filter (\<lambda>(p, t). p = t)
                         (zip (model (batch_x b) (batch_edge_index b)) (batch_y b)))) loader)"
  let ?T = "sum_list (map (\<lambda>b. length (batch_y b)) loader)"
  assume "list_all (\<lambda>b. batch_y b = [] \<or>
                     length (model (batch_x b) (batch_edge_index b)) = length (batch_y b)) loader"
  then have loop: "evaluate_loop model loader (0, 0) = Inr (?C, ?T)"
    using evaluate_loop_aligned [of model loader 0 0] by simp
  have le: "?C \<le> ?T"
    by (rule sum_matches_le)
  have ev: "evaluate model loader = Inr (if ?T = 0 then 0 else of_nat ?C / of_nat ?T)"
    by (simp add: evaluate_def loop)
  have "(0::rat) \<le> (if ?T = 0 then 0 else of_nat ?C / of_nat ?T)"
    by simp
  moreover have "(if ?T = 0 then 0 else of_nat ?C / of_nat ?T) \<le> (1::rat)"
    using le by (simp add: divide_le_eq)
  ultimately show "\<exists>acc. evaluate model loader = Inr acc \<and> 0 \<le> acc \<and> acc \<le> 1 \<and>
         acc = (if ?T = 0 then 0 else of_nat ?C / of_nat ?T)"
    using ev by blast
next
  assume "list_all (\<lambda>b. batch_y b = []) loader"
  then show "evaluate model loader = Inr 0"
    by (simp add: evaluate_def evaluate_loop_unlabelled)
qed

theorem evaluate_accuracy_witness:
  "evaluate (\<lambda>x edge_index. replicate (length edge_index) 0)
     [\<lparr>batch_x = [], batch_edge_index = [(0, 1), (1, 0)], batch_y = [1, 0]\<rparr>,
      \<lparr>batch_x = [], batch_edge_index = [], batch_y = []\<rparr>] = Inr (1 / 2) \<and>
   evaluate (\<lambda>x edge_index. replicate (length edge_index) 0)
     [\<lparr>batch_x = [], batch_edge_index = [], batch_y = []\<rparr>] = Inr 0"
  using
    evaluate_accuracy [of "\<lambda>x edge_index. replicate (length edge_index) 0"
      "[\<lparr>batch_x = [], batch_edge_index = [(0, 1), (1, 0)], batch_y = [1, 0]\<rparr>,
        \<lparr>batch_x = [], batch_edge_index = [], batch_y = []\<rparr>]"]
    evaluate_accuracy [of "\<lambda>x edge_index. replicate (length edge_index) 0"
      "[\<lparr>batch_x = [], batch_edge_index = [], batch_y = []\<rparr>]"]
  by (auto simp add: numeral_2_eq_2 field_simps)

lemma mismatched_graph_sample:
  "build_graph_from_example U
     (sample_example [literal_pair 0 0 1 0, literal_pair 1 0 0 0, literal_pair 0 0 1 0] None (Some 0))
     V 3
   = Inr (Some \<lparr>data_x = map (\<lambda>lit. embed_literal U lit V 3)
                    [ustr ''P(x)'', 172 # ustr ''P(a)'', ustr ''Q(x)'', ustr ''~Q(a)''],
                data_edge_index = [(0, 1), (1, 0)],
                data_y = [1, 0, 1, 1, 0]\<rparr>)"
proof -
  have b: "extract_best_pair (sample_example
        [literal_pair 0 0 1 0, literal_pair 1 0 0 0, literal_pair 0 0 1 0] None (Some 0))
      = Some (literal_pair 0 0 1 0)"
    by (simp add: extract_best_pair_def sample_example_def)
  have l: "pair_loop [(0, 0) \<mapsto> 0, (1, 0) \<mapsto> 1, (2, 0) \<mapsto> 2, (3, 0) \<mapsto> 3]
      (extract_best_pair (sample_example
        [literal_pair 0 0 1 0, literal_pair 1 0 0 0, literal_pair 0 0 1 0] None (Some 0)))
      [literal_pair 0 0 1 0, literal_pair 1 0 0 0, literal_pair 0 0 1 0]
      = ([0, 1, 0], [1, 0, 1], [1, 0, 1])"
    unfolding b
    by (simp add: pair_loop_def add_pair_def lookup_node_def literal_pair_def is_best_def)
  have n: "[0, 1, 0 :: nat] \<noteq> []" by simp
  have u: "to_undirected (zip [0, 1, 0] [1, 0, 1]) = [(0, 1), (1, 0)]"
    by (simp add: to_undirected_def)
  show ?thesis
    unfolding build_graph_sample [OF l n] u
    by (simp add: py_slice_def slice_bound_def)
qed

text \<open>
  Claim C8 fails as stated: the graph built from a pair, its reverse and the pair again has
  two edges and five labels; on the batch holding this graph the comparison of the two
  predictions with the five labels raises.
\<close>

theorem evaluate_mismatch_counterexample:
  "build_graph_from_example ascii_isupper
     (sample_example [literal_pair 0 0 1 0, literal_pair 1 0 0 0, literal_pair 0 0 1 0] None (Some 0))
     Map.empty 3
   = Inr (Some \<lparr>data_x = map (\<lambda>lit. embed_literal ascii_isupper lit Map.empty 3)
                    [ustr ''P(x)'', 172 # ustr ''P(a)'', ustr ''Q(x)'', ustr ''~Q(a)''],
                data_edge_index = [(0, 1), (1, 0)],
                data_y = [1, 0, 1, 1, 0]\<rparr>) \<and>
   evaluate (\<lambda>x edge_index. replicate (length edge_index) 0)
     [\<lparr>batch_x = map (\<lambda>lit. embed_literal ascii_isupper lit Map.empty 3)
                    [ustr ''P(x)'', 172 # ustr ''P(a)'', ustr ''Q(x)'', ustr ''~Q(a)''],
       batch_edge_index = [(0, 1), (1, 0)], batch_y = [1, 0, 1, 1, 0]\<rparr>]
   = Inl RuntimeError"
  using mismatched_graph_sample [of ascii_isupper Map.empty]
  by (simp add: evaluate_def count_equal_def)

end
